theory Spec2Isabelle
  imports Main "HOL-Library.Word"
begin

section \<open>Status values\<close>

text \<open>
  Modelled from the spec: the class \<open>util::Status\<close> and the enumeration
  \<open>util::error::Code\<close> (tink/util/status.h) are used by \<open>config.cc\<close> but declared
  elsewhere. The spec only says that every operation yields "success" or a typed
  error; the model keeps what \<open>config.cc\<close> itself relies on: a status is a code with
  a message, \<open>Status::OK\<close> is the code \<open>OK\<close> with the empty message, and \<open>ok()\<close>
  tests the code.
\<close>

datatype Code =
    OK | CANCELLED | UNKNOWN | INVALID_ARGUMENT | DEADLINE_EXCEEDED | NOT_FOUND
  | ALREADY_EXISTS | PERMISSION_DENIED | RESOURCE_EXHAUSTED | FAILED_PRECONDITION
  | ABORTED | OUT_OF_RANGE | UNIMPLEMENTED | INTERNAL | UNAVAILABLE | DATA_LOSS
  | UNAUTHENTICATED

datatype Status = Status (error_code: Code) (error_message: string)

definition Status_OK :: Status where
  "Status_OK = Status OK ''''"

definition ok :: "Status \<Rightarrow> bool" where
  "ok st = (error_code st = OK)"

section \<open>Strings\<close>

text \<open>
  \<open>absl::AsciiStrToLower\<close> (absl/strings/ascii.h) maps every byte in \<open>'A'..'Z'\<close>
  (65..90) to the byte 32 above it and leaves all other bytes alone.
\<close>

definition ascii_tolower :: "char \<Rightarrow> char" where
  "ascii_tolower c =
     (if (65::nat) \<le> of_char c \<and> of_char c \<le> (90::nat)
      then char_of (of_char c + (32::nat)) else c)"

definition AsciiStrToLower :: "string \<Rightarrow> string" where
  "AsciiStrToLower s = map ascii_tolower s"

text \<open>
  \<open>std::string::c_str()\<close> handed to a \<open>%s\<close> conversion: the bytes up to, and not
  including, the first NUL.
\<close>

definition c_str :: "string \<Rightarrow> string" where
  "c_str s = takeWhile (\<lambda>c. c \<noteq> CHR 0x00) s"

text \<open>
  Modelled from the spec: \<open>ToStatusF\<close> (tink/util/errors.h) is called by
  \<open>Config::Register\<close> but defined elsewhere. The spec asks for an error that names
  the unknown primitive and points at the lower-level entry point; the model builds
  the status from the code and the printf-style expansion of the format string that
  \<open>config.cc\<close> passes, where \<open>%s\<close> is the only conversion used.
\<close>

fun vasprintf :: "string \<Rightarrow> string list \<Rightarrow> string" where
  "vasprintf [] args = []"
| "vasprintf [c] args = [c]"
| "vasprintf (c # d # fmt) args =
     (if c = CHR ''%'' \<and> d = CHR ''s''
      then (case args of [] \<Rightarrow> [] | a # as \<Rightarrow> c_str a @ vasprintf fmt as)
      else c # vasprintf (d # fmt) args)"

definition ToStatusF :: "Code \<Rightarrow> string \<Rightarrow> string list \<Rightarrow> Status" where
  "ToStatusF code format args = Status code (vasprintf format args)"

text \<open>\<open>absl::StrCat\<close> of string views: plain concatenation, NUL bytes included.\<close>

definition StrCat :: "string list \<Rightarrow> string" where
  "StrCat pieces = concat pieces"

section \<open>Key-type descriptors\<close>

text \<open>
  Modelled from the spec: the message type \<open>KeyTypeEntry\<close> (proto/config.pb.h) is
  generated code that is not among the sources. Section 3 of the spec lists its
  five fields; \<open>key_manager_version\<close> is a 32-bit machine integer, so assigning the
  C++ \<open>int\<close> argument to it keeps the 32-bit pattern. A freshly constructed message
  has empty strings, version 0 and \<open>new_key_allowed = false\<close>.
\<close>

record KeyTypeEntry =
  primitive_name :: string
  type_url :: string
  key_manager_version :: "32 word"
  new_key_allowed :: bool
  catalogue_name :: string

definition new_KeyTypeEntry :: KeyTypeEntry where
  "new_KeyTypeEntry =
     \<lparr>primitive_name = '''', type_url = '''', key_manager_version = 0,
      new_key_allowed = False, catalogue_name = ''''\<rparr>"

text \<open>\<open>Config::GetTinkKeyTypeEntry\<close>, config.cc lines 37-51.\<close>

definition GetTinkKeyTypeEntry ::
  "string \<Rightarrow> string \<Rightarrow> string \<Rightarrow> 32 word \<Rightarrow> bool \<Rightarrow> KeyTypeEntry" where
  "GetTinkKeyTypeEntry catalogue primitive key_proto_name version allowed =
     (let prefix = ''type.googleapis.com/google.crypto.tink.'';
          entry = new_KeyTypeEntry;
          entry = entry\<lparr>catalogue_name := catalogue\<rparr>;
          entry = entry\<lparr>primitive_name := primitive\<rparr>;
          entry = entry\<lparr>type_url := prefix @ key_proto_name\<rparr>;
          entry = entry\<lparr>key_manager_version := version\<rparr>;
          entry = entry\<lparr>new_key_allowed := allowed\<rparr>
      in entry)"

text \<open>\<open>Config::Validate\<close>, config.cc lines 54-68.\<close>

definition Validate :: "KeyTypeEntry \<Rightarrow> Status" where
  "Validate entry =
     (if type_url entry = [] then Status INVALID_ARGUMENT ''Missing type_url.''
      else if primitive_name entry = [] then
        Status INVALID_ARGUMENT ''Missing primitive_name.''
      else if catalogue_name entry = [] then
        Status INVALID_ARGUMENT ''Missing catalogue_name.''
      else Status_OK)"

section \<open>The registry collaborator\<close>

text \<open>
  The six functions \<open>MacConfig::Register()\<close>, \<open>AeadConfig::Register()\<close>, ... that
  \<open>config.cc\<close> calls live in other files and act on the process-wide registry. They
  are a parameter of the model: a function that, for each of the six, takes the
  registry to a status and a new registry. The process state also logs every such
  call in order, so that the number and order of calls can be stated.
\<close>

datatype Delegate =
    MacConfig | AeadConfig | DeterministicAeadConfig | HybridConfig
  | SignatureConfig | StreamingAeadConfig

type_synonym 'w delegates = "Delegate \<Rightarrow> 'w \<Rightarrow> Status \<times> 'w"

record 'w process =
  trace :: "Delegate list"
  registry :: 'w

definition invoke :: "'w delegates \<Rightarrow> Delegate \<Rightarrow> 'w process \<Rightarrow> Status \<times> 'w process" where
  "invoke reg d s =
     (case reg d (registry s) of
        (status, w) \<Rightarrow> (status, \<lparr>trace = trace s @ [d], registry = w\<rparr>))"

section \<open>The dispatcher\<close>

text \<open>\<open>Config::RegisterWrapper\<close>, config.cc lines 109-135.\<close>

definition RegisterWrapper :: "'w delegates \<Rightarrow> string \<Rightarrow> 'w process \<Rightarrow> Status \<times> 'w process" where
  "RegisterWrapper reg lowercase_primitive_name s =
     (if lowercase_primitive_name = ''mac'' then invoke reg MacConfig s
      else if lowercase_primitive_name = ''aead'' then invoke reg AeadConfig s
      else if lowercase_primitive_name = ''deterministicaead'' then
        invoke reg DeterministicAeadConfig s
      else if lowercase_primitive_name = ''hybridencrypt'' \<or>
              lowercase_primitive_name = ''hybriddecrypt'' then
        invoke reg HybridConfig s
      else if lowercase_primitive_name = ''publickeysign'' \<or>
              lowercase_primitive_name = ''publickeyverify'' then
        invoke reg SignatureConfig s
      else if lowercase_primitive_name = ''streamingaead'' then
        invoke reg StreamingAeadConfig s
      else
        (Status INVALID_ARGUMENT
           (StrCat [''Cannot register primitive wrapper for non-standard primitive '',
                    lowercase_primitive_name,
                    '' (call Registry::RegisterPrimitiveWrapper directly)'']),
         s))"

text \<open>
  The first half of the loop body of \<open>Config::Register\<close>, config.cc lines 74-100:
  the chain of comparisons that assigns \<open>status\<close>. \<open>lowered\<close> is the local
  variable \<open>primitive_name\<close>, the lower-cased name of the entry.
\<close>

definition Register_dispatch ::
  "'w delegates \<Rightarrow> KeyTypeEntry \<Rightarrow> string \<Rightarrow> 'w process \<Rightarrow> Status \<times> 'w process" where
  "Register_dispatch reg entry lowered s =
     (if lowered = ''mac'' then invoke reg MacConfig s
      else if lowered = ''aead'' then invoke reg AeadConfig s
      else if lowered = ''deterministicaead'' then invoke reg DeterministicAeadConfig s
      else if lowered = ''hybridencrypt'' \<or> lowered = ''hybriddecrypt'' then
        invoke reg HybridConfig s
      else if lowered = ''publickeysign'' \<or> lowered = ''publickeyverify'' then
        invoke reg SignatureConfig s
      else if lowered = ''streamingaead'' then invoke reg StreamingAeadConfig s
      else
        (ToStatusF INVALID_ARGUMENT
           ''A non-standard primitive '%s' '%s', use directly Config::Register<P>(KeyTypeEntry&).''
           [primitive_name entry, lowered],
         s))"

text \<open>
  \<open>Config::Register\<close>, config.cc lines 71-106: the loop over \<open>config.entry()\<close>, with
  its two early returns.
\<close>

fun Register :: "'w delegates \<Rightarrow> KeyTypeEntry list \<Rightarrow> 'w process \<Rightarrow> Status \<times> 'w process" where
  "Register reg [] s = (Status_OK, s)"
| "Register reg (entry # rest) s =
     (let lowered = AsciiStrToLower (primitive_name entry) in
      case Register_dispatch reg entry lowered s of
        (status, s1) \<Rightarrow>
          if \<not> ok status then (status, s1)
          else (case RegisterWrapper reg lowered s1 of
                  (status', s2) \<Rightarrow>
                    if \<not> ok status' then (status', s2)
                    else Register reg rest s2))"

section \<open>The spec's vocabulary\<close>

text \<open>
  Section 3 of the spec: the closed set of family names, and the alias table that
  resolves a canonical name to the registration action of its family. These two
  definitions follow the spec's words; the source has no such table, only the two
  comparison chains above.
\<close>

definition spec_family_table :: "(string \<times> Delegate) list" where
  "spec_family_table =
     [(''mac'', MacConfig), (''aead'', AeadConfig),
      (''deterministicaead'', DeterministicAeadConfig),
      (''hybridencrypt'', HybridConfig), (''hybriddecrypt'', HybridConfig),
      (''publickeysign'', SignatureConfig), (''publickeyverify'', SignatureConfig),
      (''streamingaead'', StreamingAeadConfig)]"

definition spec_known_names :: "string list" where
  "spec_known_names = map fst spec_family_table"

definition spec_family :: "string \<Rightarrow> Delegate option" where
  "spec_family name = map_of spec_family_table name"

definition spec_calls :: "KeyTypeEntry \<Rightarrow> Delegate list" where
  "spec_calls e =
     (case spec_family (AsciiStrToLower (primitive_name e)) of
        None \<Rightarrow> [] | Some d \<Rightarrow> [d, d])"

section \<open>Sample inputs\<close>

text \<open>
  Three concrete registries for evaluating the model: one counts the calls and always
  succeeds, one refuses every hybrid registration, one refuses a hybrid registration
  whenever the number of registrations made so far is odd.
\<close>

definition counting_registry :: "nat delegates" where
  "counting_registry d n = (Status_OK, Suc n)"

definition no_hybrid_registry :: "nat delegates" where
  "no_hybrid_registry d n =
     (if d = HybridConfig then (Status INTERNAL ''hybrid registration failed'', n)
      else (Status_OK, Suc n))"

definition odd_hybrid_registry :: "nat delegates" where
  "odd_hybrid_registry d n =
     (if d = HybridConfig \<and> odd n then (Status INTERNAL ''hybrid wrapper failed'', n)
      else (Status_OK, Suc n))"

definition start :: "nat process" where
  "start = \<lparr>trace = [], registry = 0\<rparr>"

definition sample_entry :: "string \<Rightarrow> KeyTypeEntry" where
  "sample_entry name = GetTinkKeyTypeEntry ''SomeCatalogue'' name ''AesGcmKey'' 0 True"

section \<open>Basic facts about the model\<close>

lemma ok_Status_OK: "ok Status_OK"
  by (simp add: ok_def Status_OK_def)

lemma ok_Status: "ok (Status c m) = (c = OK)"
  by (simp add: ok_def)

lemma not_ok_ToStatusF: "\<not> ok (ToStatusF INVALID_ARGUMENT fmt args)"
  by (simp add: ok_def ToStatusF_def)

lemma spec_family_cases:
  assumes "spec_family n = Some d"
  shows "(n = ''mac'' \<and> d = MacConfig) \<or> (n = ''aead'' \<and> d = AeadConfig)
       \<or> (n = ''deterministicaead'' \<and> d = DeterministicAeadConfig)
       \<or> ((n = ''hybridencrypt'' \<or> n = ''hybriddecrypt'') \<and> d = HybridConfig)
       \<or> ((n = ''publickeysign'' \<or> n = ''publickeyverify'') \<and> d = SignatureConfig)
       \<or> (n = ''streamingaead'' \<and> d = StreamingAeadConfig)"
  using assms by (simp add: spec_family_def spec_family_table_def split: if_splits)

lemma spec_family_None:
  "spec_family n = None \<longleftrightarrow> n \<notin> set spec_known_names"
  by (simp add: spec_family_def spec_known_names_def map_of_eq_None_iff)

lemma spec_family_None_cases:
  assumes "spec_family n = None"
  shows "n \<noteq> ''mac'' \<and> n \<noteq> ''aead'' \<and> n \<noteq> ''deterministicaead'' \<and> n \<noteq> ''hybridencrypt''
       \<and> n \<noteq> ''hybriddecrypt'' \<and> n \<noteq> ''publickeysign'' \<and> n \<noteq> ''publickeyverify''
       \<and> n \<noteq> ''streamingaead''"
  using assms by (simp add: spec_family_def spec_family_table_def split: if_splits)

lemma Register_dispatch_known:
  assumes "spec_family n = Some d"
  shows "Register_dispatch reg e n s = invoke reg d s"
  using spec_family_cases [OF assms] by (auto simp: Register_dispatch_def)

lemma RegisterWrapper_known:
  assumes "spec_family n = Some d"
  shows "RegisterWrapper reg n s = invoke reg d s"
  using spec_family_cases [OF assms] by (auto simp: RegisterWrapper_def)

lemma vasprintf_nonstandard:
  "vasprintf ''A non-standard primitive '%s' '%s', use directly Config::Register<P>(KeyTypeEntry&).'' [a, b] =
   ''A non-standard primitive '' @ [CHR 0x27] @ c_str a @ [CHR 0x27] @ '' '' @ [CHR 0x27] @ c_str b @ [CHR 0x27]
     @ '', use directly Config::Register<P>(KeyTypeEntry&).''"
  by simp

lemma Register_dispatch_unknown:
  assumes "spec_family n = None"
  shows "Register_dispatch reg e n s =
    (ToStatusF INVALID_ARGUMENT
           ''A non-standard primitive '%s' '%s', use directly Config::Register<P>(KeyTypeEntry&).''
           [primitive_name e, n], s)"
  using spec_family_None_cases [OF assms] by (simp add: Register_dispatch_def)

lemma RegisterWrapper_unknown:
  assumes "spec_family n = None"
  shows "RegisterWrapper reg n s =
    (Status INVALID_ARGUMENT
       (''Cannot register primitive wrapper for non-standard primitive '' @ n @
        '' (call Registry::RegisterPrimitiveWrapper directly)''), s)"
  using spec_family_None_cases [OF assms] by (simp add: RegisterWrapper_def StrCat_def)

lemma Register_Cons_known:
  assumes "spec_family (AsciiStrToLower (primitive_name e)) = Some d"
  shows "Register reg (e # rest) s =
     (case invoke reg d s of
        (st1, s1) \<Rightarrow>
          if \<not> ok st1 then (st1, s1)
          else (case invoke reg d s1 of
                  (st2, s2) \<Rightarrow> if \<not> ok st2 then (st2, s2) else Register reg rest s2))"
  by (simp add: Register_dispatch_known [OF assms] RegisterWrapper_known [OF assms]
        split: prod.splits)

lemma Register_Cons_unknown:
  assumes "spec_family (AsciiStrToLower (primitive_name e)) = None"
  shows "Register reg (e # rest) s =
    (ToStatusF INVALID_ARGUMENT
           ''A non-standard primitive '%s' '%s', use directly Config::Register<P>(KeyTypeEntry&).''
           [primitive_name e, AsciiStrToLower (primitive_name e)], s)"
  by (simp add: Register_dispatch_unknown [OF assms] not_ok_ToStatusF)

lemma Register_append_ok:
  "Register reg pre s = (st, s1) \<Longrightarrow> ok st \<Longrightarrow> Register reg (pre @ post) s = Register reg post s1"
  by (induction pre arbitrary: s) (auto simp: Let_def split: prod.splits if_splits)

lemma Register_append_fail:
  "Register reg pre s = (st, s1) \<Longrightarrow> \<not> ok st \<Longrightarrow> Register reg (pre @ post) s = (st, s1)"
  by (induction pre arbitrary: s) (auto simp: Let_def ok_Status_OK split: prod.splits if_splits)

lemma Register_dispatch_names:
  "primitive_name e1 = primitive_name e2 \<Longrightarrow> Register_dispatch reg e1 n s = Register_dispatch reg e2 n s"
  by (simp add: Register_dispatch_def)

lemma Register_names:
  "map primitive_name c1 = map primitive_name c2 \<Longrightarrow> Register reg c1 s = Register reg c2 s"
proof (induction c1 arbitrary: c2 s)
  case Nil
  then show ?case by simp
next
  case (Cons e1 c1)
  then obtain e2 r2 where c2: "c2 = e2 # r2" and n: "primitive_name e1 = primitive_name e2"
    and m: "map primitive_name c1 = map primitive_name r2"
    by (cases c2) auto
  have "\<And>t. Register reg c1 t = Register reg r2 t" using Cons.IH [OF m] .
  then show ?case
    by (simp add: c2 n Register_dispatch_names [OF n] Let_def split: prod.splits)
qed


lemma invoke_eq:
  "reg d (registry s) = (st, w) \<Longrightarrow> invoke reg d s = (st, \<lparr>trace = trace s @ [d], registry = w\<rparr>)"
  by (simp add: invoke_def)

lemma trace_invoke: "trace (snd (invoke reg d s)) = trace s @ [d]"
  by (simp add: invoke_def split: prod.splits)

lemma fst_invoke: "fst (invoke reg d s) = fst (reg d (registry s))"
  by (simp add: invoke_def split: prod.splits)

lemma Register_ok_trace:
  "Register reg cfg s = (st, s') \<Longrightarrow> ok st \<Longrightarrow>
     st = Status_OK \<and> trace s' = trace s @ concat (map spec_calls cfg)"
proof (induction cfg arbitrary: s)
  case Nil
  then show ?case by simp
next
  case (Cons e cfg)
  show ?case
  proof (cases "spec_family (AsciiStrToLower (primitive_name e))")
    case None
    from Cons.prems(1) have "\<not> ok st"
      unfolding Register_Cons_unknown [OF None] using not_ok_ToStatusF by auto
    with Cons.prems(2) show ?thesis by simp
  next
    case (Some d)
    obtain st1 s1 where i1: "invoke reg d s = (st1, s1)" by (cases "invoke reg d s")
    obtain st2 s2 where i2: "invoke reg d s1 = (st2, s2)" by (cases "invoke reg d s1")
    have t1: "trace s1 = trace s @ [d]" using trace_invoke [of reg d s] i1 by simp
    have t2: "trace s2 = trace s1 @ [d]" using trace_invoke [of reg d s1] i2 by simp
    have step: "Register reg (e # cfg) s =
        (if \<not> ok st1 then (st1, s1) else if \<not> ok st2 then (st2, s2) else Register reg cfg s2)"
      unfolding Register_Cons_known [OF Some] by (simp add: i1 i2)
    from Cons.prems have ok1: "ok st1" and ok2: "ok st2" and rest: "Register reg cfg s2 = (st, s')"
      unfolding step by (auto split: if_splits)
    from Cons.IH [OF rest Cons.prems(2)] show ?thesis
      by (simp add: t1 t2 spec_calls_def Some)
  qed
qed

lemma lower_Aead: "AsciiStrToLower ''Aead'' = ''aead''" by code_simp
lemma lower_HybridEncrypt: "AsciiStrToLower ''HybridEncrypt'' = ''hybridencrypt''" by code_simp
lemma lower_hybriddecrypt: "AsciiStrToLower ''hybriddecrypt'' = ''hybriddecrypt''" by code_simp
lemma lower_publickeysign: "AsciiStrToLower ''publickeysign'' = ''publickeysign''" by code_simp
lemma lower_publickeyverify: "AsciiStrToLower ''publickeyverify'' = ''publickeyverify''" by code_simp
lemma lower_CustomMac: "AsciiStrToLower ''CustomMac'' = ''custommac''" by code_simp
lemma lower_Mac: "AsciiStrToLower ''Mac'' = ''mac''" by code_simp

lemma primitive_name_sample_entry: "primitive_name (sample_entry n) = n"
  by (simp add: sample_entry_def GetTinkKeyTypeEntry_def new_KeyTypeEntry_def)

lemma spec_family_simps:
  "spec_family ''mac'' = Some MacConfig"
  "spec_family ''aead'' = Some AeadConfig"
  "spec_family ''deterministicaead'' = Some DeterministicAeadConfig"
  "spec_family ''hybridencrypt'' = Some HybridConfig"
  "spec_family ''hybriddecrypt'' = Some HybridConfig"
  "spec_family ''publickeysign'' = Some SignatureConfig"
  "spec_family ''publickeyverify'' = Some SignatureConfig"
  "spec_family ''streamingaead'' = Some StreamingAeadConfig"
  "spec_family ''custommac'' = None"
  "spec_family ''Aead'' = None"
  by (simp_all add: spec_family_def spec_family_table_def)

lemma trace_Register_dispatch:
  "Register_dispatch reg e n s = (st, s1) \<Longrightarrow>
     trace s1 = trace s @ (case spec_family n of None \<Rightarrow> [] | Some d \<Rightarrow> [d])"
proof (cases "spec_family n")
  case None
  assume "Register_dispatch reg e n s = (st, s1)"
  then show ?thesis unfolding Register_dispatch_unknown [OF None] using None by simp
next
  case (Some d)
  assume "Register_dispatch reg e n s = (st, s1)"
  then show ?thesis unfolding Register_dispatch_known [OF Some]
    using Some trace_invoke [of reg d s] by simp
qed

lemma trace_RegisterWrapper:
  "RegisterWrapper reg n s = (st, s1) \<Longrightarrow>
     trace s1 = trace s @ (case spec_family n of None \<Rightarrow> [] | Some d \<Rightarrow> [d])"
proof (cases "spec_family n")
  case None
  assume "RegisterWrapper reg n s = (st, s1)"
  then show ?thesis unfolding RegisterWrapper_unknown [OF None] using None by simp
next
  case (Some d)
  assume "RegisterWrapper reg n s = (st, s1)"
  then show ?thesis unfolding RegisterWrapper_known [OF Some]
    using Some trace_invoke [of reg d s] by simp
qed

lemmas run_simps =
  Let_def Register_dispatch_def RegisterWrapper_def invoke_def primitive_name_sample_entry
  lower_Aead lower_HybridEncrypt lower_hybriddecrypt lower_publickeysign lower_publickeyverify
  lower_CustomMac lower_Mac ok_def Status_OK_def start_def counting_registry_def
  no_hybrid_registry_def odd_hybrid_registry_def

lemma c_str_no_NUL: "CHR 0x00 \<notin> set n \<Longrightarrow> c_str n = n"
  by (auto simp: c_str_def takeWhile_eq_all_conv)

lemma ascii_tolower_NUL: "ascii_tolower c = CHR 0x00 \<Longrightarrow> c = CHR 0x00"
proof (cases "(65::nat) \<le> of_char c \<and> of_char c \<le> (90::nat)")
  case True
  assume "ascii_tolower c = CHR 0x00"
  with True have "char_of (of_char c + (32::nat)) = CHR 0x00"
    by (simp add: ascii_tolower_def)
  then have "(of_char (char_of (of_char c + (32::nat))) :: nat) = of_char (CHR 0x00)"
    by simp
  then have "(of_char c + (32::nat)) mod 256 = 0" by simp
  with True show ?thesis by presburger
next
  case False
  assume "ascii_tolower c = CHR 0x00"
  with False show ?thesis by (auto simp: ascii_tolower_def split: if_splits)
qed

lemma Register_ok_known:
  "Register reg cfg s = (st, s') \<Longrightarrow> ok st \<Longrightarrow>
     list_all (\<lambda>e. AsciiStrToLower (primitive_name e) \<in> set spec_known_names) cfg"
proof (induction cfg arbitrary: s)
  case Nil
  then show ?case by simp
next
  case (Cons e cfg)
  show ?case
  proof (cases "spec_family (AsciiStrToLower (primitive_name e))")
    case None
    from Cons.prems(1) have "\<not> ok st"
      unfolding Register_Cons_unknown [OF None] using not_ok_ToStatusF by auto
    with Cons.prems(2) show ?thesis by simp
  next
    case (Some d)
    obtain st1 s1 where i1: "invoke reg d s = (st1, s1)" by (cases "invoke reg d s")
    obtain st2 s2 where i2: "invoke reg d s1 = (st2, s2)" by (cases "invoke reg d s1")
    have step: "Register reg (e # cfg) s =
        (if \<not> ok st1 then (st1, s1) else if \<not> ok st2 then (st2, s2) else Register reg cfg s2)"
      unfolding Register_Cons_known [OF Some] by (simp add: i1 i2)
    from Cons.prems have rest: "Register reg cfg s2 = (st, s')"
      unfolding step by (auto split: if_splits)
    have "AsciiStrToLower (primitive_name e) \<in> set spec_known_names"
      using Some spec_family_None [of "AsciiStrToLower (primitive_name e)"] by simp
    with Cons.IH [OF rest Cons.prems(2)] show ?thesis by simp
  qed
qed

lemma length_spec_calls:
  "list_all (\<lambda>e. AsciiStrToLower (primitive_name e) \<in> set spec_known_names) cfg \<Longrightarrow>
     length (concat (map spec_calls cfg)) = 2 * length cfg"
proof (induction cfg)
  case Nil
  then show ?case by simp
next
  case (Cons e cfg)
  then have "spec_family (AsciiStrToLower (primitive_name e)) \<noteq> None"
    by (simp add: spec_family_None)
  then have "length (spec_calls e) = 2" by (auto simp: spec_calls_def)
  with Cons show ?case by simp
qed

lemma Register_Cons_steps:
  assumes d: "Register_dispatch reg e (AsciiStrToLower (primitive_name e)) s = (k1, t1)"
    and w: "RegisterWrapper reg (AsciiStrToLower (primitive_name e)) t1 = (k2, t2)"
  shows "Register reg (e # rest) s =
     (if \<not> ok k1 then (k1, t1) else if \<not> ok k2 then (k2, t2) else Register reg rest t2)"
  by (simp add: Let_def d w)

lemma Register_trace_extends:
  "\<exists>ds. trace (snd (Register reg cfg s)) = trace s @ ds"
proof (induction cfg arbitrary: s)
  case Nil
  then show ?case by simp
next
  case (Cons e cfg)
  let ?n = "AsciiStrToLower (primitive_name e)"
  obtain k1 t1 where d: "Register_dispatch reg e ?n s = (k1, t1)"
    by (cases "Register_dispatch reg e ?n s")
  obtain k2 t2 where w: "RegisterWrapper reg ?n t1 = (k2, t2)"
    by (cases "RegisterWrapper reg ?n t1")
  have tr1: "\<exists>ds. trace t1 = trace s @ ds" using trace_Register_dispatch [OF d] by blast
  have tr2: "\<exists>ds. trace t2 = trace s @ ds"
    using trace_Register_dispatch [OF d] trace_RegisterWrapper [OF w] by simp
  from Cons.IH [of t2] tr2 have tr3: "\<exists>ds. trace (snd (Register reg cfg t2)) = trace s @ ds"
    by auto
  show ?case unfolding Register_Cons_steps [OF d w] using tr1 tr2 tr3 by simp
qed

lemma Register_trace_take:
  "trace s = xs \<Longrightarrow> take (length xs) (trace (snd (Register reg cfg s))) = xs"
  using Register_trace_extends [of reg cfg s] by auto

section \<open>Claims\<close>

text \<open>
  C1. Take an entry at any position of a configuration whose lower-cased
  \<open>primitive_name\<close> is one of the eight known names, with family \<open>d\<close>, and let the
  loop over the entries before it have run to its end (status \<open>ok\<close>, state \<open>s1\<close>).
  The key-manager step for the entry is exactly one call of the registration action
  of \<open>d\<close>, and the wrapper step after it exactly one more call of the action of \<open>d\<close>.
  \<open>Register\<close> on the whole configuration makes the first call, returns its status
  if that failed, makes the second call, returns its status if that failed, and
  otherwise goes on with the entries that follow: once the key-manager step has
  succeeded, the call log of the whole run continues after \<open>s1\<close> with \<open>d, d\<close>. When
  both calls succeed and the entry is the last one, \<open>Register\<close> returns \<open>Status::OK\<close>.
  The descriptor need not be valid for this: \<open>Register\<close> reads the name only.
\<close>

theorem Register_known_entry:
  assumes fam: "spec_family (AsciiStrToLower (primitive_name e)) = Some d"
    and before: "Register reg pre s = (st0, s1)" and ok0: "ok st0"
    and km: "reg d (registry s1) = (st1, w1)"
    and wr: "reg d w1 = (st2, w2)"
  shows "Register_dispatch reg e (AsciiStrToLower (primitive_name e)) s1 =
           (st1, \<lparr>trace = trace s1 @ [d], registry = w1\<rparr>)
       \<and> RegisterWrapper reg (AsciiStrToLower (primitive_name e))
             \<lparr>trace = trace s1 @ [d], registry = w1\<rparr> =
           (st2, \<lparr>trace = trace s1 @ [d, d], registry = w2\<rparr>)
       \<and> Register reg (pre @ e # post) s =
           (if \<not> ok st1 then (st1, \<lparr>trace = trace s1 @ [d], registry = w1\<rparr>)
            else if \<not> ok st2 then (st2, \<lparr>trace = trace s1 @ [d, d], registry = w2\<rparr>)
            else Register reg post \<lparr>trace = trace s1 @ [d, d], registry = w2\<rparr>)
       \<and> (ok st1 \<longrightarrow>
            take (length (trace s1) + 2) (trace (snd (Register reg (pre @ e # post) s))) =
              trace s1 @ [d, d])
       \<and> (ok st1 \<and> ok st2 \<longrightarrow>
            Register reg (pre @ e # post) s =
              Register reg post \<lparr>trace = trace s1 @ [d, d], registry = w2\<rparr>)
       \<and> (ok st1 \<and> ok st2 \<longrightarrow>
            Register reg (pre @ [e]) s =
              (Status_OK, \<lparr>trace = trace s1 @ [d, d], registry = w2\<rparr>))
       \<and> (ok st1 \<and> ok st2 \<longrightarrow>
            Register reg [e] s1 = (Status_OK, \<lparr>trace = trace s1 @ [d, d], registry = w2\<rparr>))"
proof -
  let ?n = "AsciiStrToLower (primitive_name e)"
  let ?t1 = "\<lparr>trace = trace s1 @ [d], registry = w1\<rparr>"
  let ?t2 = "\<lparr>trace = trace s1 @ [d, d], registry = w2\<rparr>"
  have i1: "invoke reg d s1 = (st1, ?t1)" using km by (rule invoke_eq)
  have i2: "invoke reg d ?t1 = (st2, ?t2)" using invoke_eq [of reg d ?t1 st2 w2] wr by simp
  have a: "Register_dispatch reg e ?n s1 = (st1, ?t1)"
    by (simp add: Register_dispatch_known [OF fam] i1)
  have b: "RegisterWrapper reg ?n ?t1 = (st2, ?t2)"
    by (simp add: RegisterWrapper_known [OF fam] i2)
  have here: "Register reg (e # rest) s1 =
      (if \<not> ok st1 then (st1, ?t1) else if \<not> ok st2 then (st2, ?t2)
       else Register reg rest ?t2)" for rest
    by (rule Register_Cons_steps [OF a b])
  have app: "Register reg (pre @ e # rest) s = Register reg (e # rest) s1" for rest
    by (rule Register_append_ok [OF before ok0])
  have c: "Register reg (pre @ e # post) s =
      (if \<not> ok st1 then (st1, ?t1) else if \<not> ok st2 then (st2, ?t2)
       else Register reg post ?t2)"
    unfolding app by (rule here)
  have tk: "take (length (trace s1) + 2) (trace (snd (Register reg post ?t2))) = trace s1 @ [d, d]"
    using Register_trace_take [of ?t2 "trace s1 @ [d, d]" reg post] by simp
  have d: "ok st1 \<longrightarrow>
      take (length (trace s1) + 2) (trace (snd (Register reg (pre @ e # post) s))) =
        trace s1 @ [d, d]"
    unfolding c using tk by simp
  have e1: "ok st1 \<and> ok st2 \<longrightarrow> Register reg (pre @ e # post) s = Register reg post ?t2"
    unfolding c by simp
  have e2: "ok st1 \<and> ok st2 \<longrightarrow> Register reg (pre @ [e]) s = (Status_OK, ?t2)"
    unfolding app [of "[]"] here [of "[]"] by simp
  have e3: "ok st1 \<and> ok st2 \<longrightarrow> Register reg [e] s1 = (Status_OK, ?t2)"
    unfolding here [of "[]"] by simp
  show ?thesis by (intro conjI) (rule a b c d e1 e2 e3)+
qed

theorem Register_known_entry_witness:
  "spec_family (AsciiStrToLower (primitive_name (sample_entry ''Aead''))) = Some AeadConfig
   \<and> Validate (sample_entry ''Aead'') = Status_OK
   \<and> Register counting_registry [sample_entry ''Mac''] start =
        (Status_OK, \<lparr>trace = [MacConfig, MacConfig], registry = 2\<rparr>)
   \<and> ok Status_OK
   \<and> counting_registry AeadConfig (registry \<lparr>trace = [MacConfig, MacConfig], registry = 2\<rparr>)
        = (Status_OK, 3)
   \<and> counting_registry AeadConfig 3 = (Status_OK, 4)
   \<and> Register counting_registry
        [sample_entry ''Mac'', sample_entry ''Aead'', sample_entry ''hybriddecrypt''] start =
        (Status_OK,
         \<lparr>trace = [MacConfig, MacConfig, AeadConfig, AeadConfig, HybridConfig, HybridConfig],
          registry = 6\<rparr>)
   \<and> Register counting_registry [sample_entry ''Mac'', sample_entry ''Aead''] start =
        (Status_OK, \<lparr>trace = [MacConfig, MacConfig, AeadConfig, AeadConfig], registry = 4\<rparr>)"
proof -
  let ?s1 = "\<lparr>trace = [MacConfig, MacConfig], registry = 2::nat\<rparr>"
  let ?s2 = "\<lparr>trace = [MacConfig, MacConfig, AeadConfig, AeadConfig], registry = 4::nat\<rparr>"
  have fam: "spec_family (AsciiStrToLower (primitive_name (sample_entry ''Aead''))) = Some AeadConfig"
    by (simp add: primitive_name_sample_entry lower_Aead spec_family_simps)
  have v: "Validate (sample_entry ''Aead'') = Status_OK"
    by (simp add: Validate_def sample_entry_def GetTinkKeyTypeEntry_def new_KeyTypeEntry_def)
  have before: "Register counting_registry [sample_entry ''Mac''] start = (Status_OK, ?s1)"
    by (simp add: run_simps)
  have ok0: "ok Status_OK" by (rule ok_Status_OK)
  have km: "counting_registry AeadConfig (registry ?s1) = (Status_OK, 3)"
    by (simp add: counting_registry_def)
  have wr: "counting_registry AeadConfig 3 = (Status_OK, 4)"
    by (simp add: counting_registry_def)
  have rest: "Register counting_registry [sample_entry ''hybriddecrypt''] ?s2 =
        (Status_OK,
         \<lparr>trace = [MacConfig, MacConfig, AeadConfig, AeadConfig, HybridConfig, HybridConfig],
          registry = 6\<rparr>)"
    by (simp add: run_simps)
  note all = Register_known_entry
    [where reg = counting_registry and s = start, OF fam before ok0 km wr]
  have c1: "Register counting_registry
        [sample_entry ''Mac'', sample_entry ''Aead'', sample_entry ''hybriddecrypt''] start =
        (Status_OK,
         \<lparr>trace = [MacConfig, MacConfig, AeadConfig, AeadConfig, HybridConfig, HybridConfig],
          registry = 6\<rparr>)"
    using all [where post = "[sample_entry ''hybriddecrypt'']"] ok0 rest
    by (simp del: Register.simps)
  have c2: "Register counting_registry [sample_entry ''Mac'', sample_entry ''Aead''] start =
        (Status_OK, ?s2)"
    using all [where post = "[]"] ok0 by (simp del: Register.simps(2))
  show ?thesis by (intro conjI) (rule fam v before ok0 km wr c1 c2)+
qed

text \<open>
  C2. Let the loop over the entries before entry \<open>i\<close> have run to its end (status
  \<open>ok\<close>, state \<open>s1\<close>), let the key-manager step of entry \<open>i\<close> in \<open>s1\<close> give status
  \<open>k1\<close> and state \<open>t1\<close>, and let the wrapper step in \<open>t1\<close> give \<open>k2\<close> and \<open>t2\<close>. If
  the key-manager step fails, \<open>Register\<close> on the whole configuration returns \<open>k1\<close>
  in state \<open>t1\<close>: the wrapper step is not run. If the key-manager step succeeds and
  the wrapper step fails, \<open>Register\<close> returns \<open>k2\<close> in state \<open>t2\<close>. In both cases
  the result is the same whatever entries follow entry \<open>i\<close>: none of them is
  processed. The calls made for the earlier entries (two per entry) are in the log of
  \<open>s1\<close>, which the logs of \<open>t1\<close> and \<open>t2\<close> extend by one call each for a known name.
  If neither step fails, the loop goes on with entry \<open>i + 1\<close> in state \<open>t2\<close>.
\<close>

theorem Register_stops_at_first_failure:
  assumes i: "i < length cfg"
    and before: "Register reg (take i cfg) s = (st0, s1)" and ok0: "ok st0"
    and km: "Register_dispatch reg (cfg ! i) (AsciiStrToLower (primitive_name (cfg ! i))) s1 =
               (k1, t1)"
    and wr: "RegisterWrapper reg (AsciiStrToLower (primitive_name (cfg ! i))) t1 = (k2, t2)"
  shows "(\<not> ok k1 \<longrightarrow> Register reg cfg s = (k1, t1))
       \<and> (ok k1 \<and> \<not> ok k2 \<longrightarrow> Register reg cfg s = (k2, t2))
       \<and> (\<not> ok k1 \<longrightarrow> Register reg (take i cfg @ cfg ! i # others) s = (k1, t1))
       \<and> (ok k1 \<and> \<not> ok k2 \<longrightarrow> Register reg (take i cfg @ cfg ! i # others) s = (k2, t2))
       \<and> (ok k1 \<and> ok k2 \<longrightarrow> Register reg cfg s = Register reg (drop (Suc i) cfg) t2)
       \<and> st0 = Status_OK
       \<and> trace s1 = trace s @ concat (map spec_calls (take i cfg))
       \<and> trace t1 = trace s1 @
            (case spec_family (AsciiStrToLower (primitive_name (cfg ! i))) of
               None \<Rightarrow> [] | Some d \<Rightarrow> [d])
       \<and> trace t2 = trace t1 @
            (case spec_family (AsciiStrToLower (primitive_name (cfg ! i))) of
               None \<Rightarrow> [] | Some d \<Rightarrow> [d])"
proof -
  let ?e = "cfg ! i"
  have here: "Register reg (?e # rest) s1 =
      (if \<not> ok k1 then (k1, t1) else if \<not> ok k2 then (k2, t2) else Register reg rest t2)"
    for rest
    by (rule Register_Cons_steps [OF km wr])
  have app: "Register reg (take i cfg @ ?e # rest) s = Register reg (?e # rest) s1" for rest
    by (rule Register_append_ok [OF before ok0])
  have split_cfg: "cfg = take i cfg @ ?e # drop (Suc i) cfg"
    using i by (simp add: id_take_nth_drop)
  have whole: "Register reg cfg s =
      (if \<not> ok k1 then (k1, t1) else if \<not> ok k2 then (k2, t2)
       else Register reg (drop (Suc i) cfg) t2)"
    using app [of "drop (Suc i) cfg"] here [of "drop (Suc i) cfg"] split_cfg by simp
  have a1: "\<not> ok k1 \<longrightarrow> Register reg cfg s = (k1, t1)" unfolding whole by simp
  have a2: "ok k1 \<and> \<not> ok k2 \<longrightarrow> Register reg cfg s = (k2, t2)" unfolding whole by simp
  have b1: "\<not> ok k1 \<longrightarrow> Register reg (take i cfg @ ?e # others) s = (k1, t1)"
    unfolding app here by simp
  have b2: "ok k1 \<and> \<not> ok k2 \<longrightarrow> Register reg (take i cfg @ ?e # others) s = (k2, t2)"
    unfolding app here by simp
  have c: "ok k1 \<and> ok k2 \<longrightarrow> Register reg cfg s = Register reg (drop (Suc i) cfg) t2"
    unfolding whole by simp
  have pre: "st0 = Status_OK \<and> trace s1 = trace s @ concat (map spec_calls (take i cfg))"
    by (rule Register_ok_trace [OF before ok0])
  note pre1 = conjunct1 [OF pre] and pre2 = conjunct2 [OF pre]
  note tr1 = trace_Register_dispatch [OF km] and tr2 = trace_RegisterWrapper [OF wr]
  show ?thesis by (intro conjI) (rule a1 a2 b1 b2 c pre1 pre2 tr1 tr2)+
qed

theorem Register_stops_at_first_failure_witness:
  "(1::nat) < length [sample_entry ''Aead'', sample_entry ''HybridEncrypt'', sample_entry ''Mac'']
   \<and> ok Status_OK
   \<and> Register no_hybrid_registry
        (take 1 [sample_entry ''Aead'', sample_entry ''HybridEncrypt'', sample_entry ''Mac'']) start
       = (Status_OK, \<lparr>trace = [AeadConfig, AeadConfig], registry = 2\<rparr>)
   \<and> Register_dispatch no_hybrid_registry (sample_entry ''HybridEncrypt'') ''hybridencrypt''
        \<lparr>trace = [AeadConfig, AeadConfig], registry = 2\<rparr>
       = (Status INTERNAL ''hybrid registration failed'',
          \<lparr>trace = [AeadConfig, AeadConfig, HybridConfig], registry = 2\<rparr>)
   \<and> \<not> ok (Status INTERNAL ''hybrid registration failed'')
   \<and> Register no_hybrid_registry
        [sample_entry ''Aead'', sample_entry ''HybridEncrypt'', sample_entry ''Mac''] start
       = (Status INTERNAL ''hybrid registration failed'',
          \<lparr>trace = [AeadConfig, AeadConfig, HybridConfig], registry = 2\<rparr>)
   \<and> Register odd_hybrid_registry
        (take 1 [sample_entry ''Aead'', sample_entry ''HybridEncrypt'', sample_entry ''Mac'']) start
       = (Status_OK, \<lparr>trace = [AeadConfig, AeadConfig], registry = 2\<rparr>)
   \<and> Register_dispatch odd_hybrid_registry (sample_entry ''HybridEncrypt'') ''hybridencrypt''
        \<lparr>trace = [AeadConfig, AeadConfig], registry = 2\<rparr>
       = (Status_OK, \<lparr>trace = [AeadConfig, AeadConfig, HybridConfig], registry = 3\<rparr>)
   \<and> RegisterWrapper odd_hybrid_registry ''hybridencrypt''
        \<lparr>trace = [AeadConfig, AeadConfig, HybridConfig], registry = 3\<rparr>
       = (Status INTERNAL ''hybrid wrapper failed'',
          \<lparr>trace = [AeadConfig, AeadConfig, HybridConfig, HybridConfig], registry = 3\<rparr>)
   \<and> \<not> ok (Status INTERNAL ''hybrid wrapper failed'')
   \<and> Register odd_hybrid_registry
        [sample_entry ''Aead'', sample_entry ''HybridEncrypt'', sample_entry ''Mac''] start
       = (Status INTERNAL ''hybrid wrapper failed'',
          \<lparr>trace = [AeadConfig, AeadConfig, HybridConfig, HybridConfig], registry = 3\<rparr>)"
proof -
  let ?cfg = "[sample_entry ''Aead'', sample_entry ''HybridEncrypt'', sample_entry ''Mac'']"
  let ?s1 = "\<lparr>trace = [AeadConfig, AeadConfig], registry = 2::nat\<rparr>"
  let ?a1 = "\<lparr>trace = [AeadConfig, AeadConfig, HybridConfig], registry = 2::nat\<rparr>"
  let ?a2 = "\<lparr>trace = [AeadConfig, AeadConfig, HybridConfig, HybridConfig], registry = 2::nat\<rparr>"
  let ?b1 = "\<lparr>trace = [AeadConfig, AeadConfig, HybridConfig], registry = 3::nat\<rparr>"
  let ?b2 = "\<lparr>trace = [AeadConfig, AeadConfig, HybridConfig, HybridConfig], registry = 3::nat\<rparr>"
  let ?ea = "Status INTERNAL ''hybrid registration failed''"
  let ?eb = "Status INTERNAL ''hybrid wrapper failed''"
  have n: "AsciiStrToLower (primitive_name (?cfg ! 1)) = ''hybridencrypt''"
    by (simp add: primitive_name_sample_entry lower_HybridEncrypt)
  have e: "?cfg ! 1 = sample_entry ''HybridEncrypt''" by simp
  have i: "(1::nat) < length ?cfg" by simp
  have ok0: "ok Status_OK" by (rule ok_Status_OK)
  have beforeA: "Register no_hybrid_registry (take 1 ?cfg) start = (Status_OK, ?s1)"
    by (simp add: run_simps)
  have kmA: "Register_dispatch no_hybrid_registry (sample_entry ''HybridEncrypt'')
               ''hybridencrypt'' ?s1 = (?ea, ?a1)"
    by (simp add: run_simps)
  have wrA: "RegisterWrapper no_hybrid_registry ''hybridencrypt'' ?a1 = (?ea, ?a2)"
    by (simp add: run_simps)
  have failA: "\<not> ok ?ea" by (simp add: ok_def)
  have beforeB: "Register odd_hybrid_registry (take 1 ?cfg) start = (Status_OK, ?s1)"
    by (simp add: run_simps)
  have kmB: "Register_dispatch odd_hybrid_registry (sample_entry ''HybridEncrypt'')
               ''hybridencrypt'' ?s1 = (Status_OK, ?b1)"
    by (simp add: run_simps)
  have wrB: "RegisterWrapper odd_hybrid_registry ''hybridencrypt'' ?b1 = (?eb, ?b2)"
    by (simp add: run_simps)
  have failB: "\<not> ok ?eb" by (simp add: ok_def)
  have kmA': "Register_dispatch no_hybrid_registry (?cfg ! 1)
       (AsciiStrToLower (primitive_name (?cfg ! 1))) ?s1 = (?ea, ?a1)"
    unfolding n unfolding e by (rule kmA)
  have wrA': "RegisterWrapper no_hybrid_registry
       (AsciiStrToLower (primitive_name (?cfg ! 1))) ?a1 = (?ea, ?a2)"
    unfolding n by (rule wrA)
  have kmB': "Register_dispatch odd_hybrid_registry (?cfg ! 1)
       (AsciiStrToLower (primitive_name (?cfg ! 1))) ?s1 = (Status_OK, ?b1)"
    unfolding n unfolding e by (rule kmB)
  have wrB': "RegisterWrapper odd_hybrid_registry
       (AsciiStrToLower (primitive_name (?cfg ! 1))) ?b1 = (?eb, ?b2)"
    unfolding n by (rule wrB)
  have resA: "Register no_hybrid_registry ?cfg start = (?ea, ?a1)"
    using Register_stops_at_first_failure
      [where reg = no_hybrid_registry and s = start, OF i beforeA ok0 kmA' wrA'] failA
    by blast
  have resB: "Register odd_hybrid_registry ?cfg start = (?eb, ?b2)"
    using Register_stops_at_first_failure
      [where reg = odd_hybrid_registry and s = start, OF i beforeB ok0 kmB' wrB'] failB ok0
    by blast
  show ?thesis
    by (intro conjI) (rule i ok0 beforeA kmA failA resA beforeB kmB wrB failB resB)+
qed

text \<open>
  C3. \<open>Validate\<close> succeeds exactly when \<open>type_url\<close>, \<open>primitive_name\<close> and
  \<open>catalogue_name\<close> are all non-empty. Otherwise the error names the first empty
  field in the order \<open>type_url\<close>, \<open>primitive_name\<close>, \<open>catalogue_name\<close>, and the three
  errors and success are four different values. \<open>Validate\<close> reads nothing but the
  descriptor and writes nothing, which is why it is a function from descriptors to
  statuses here.
\<close>

theorem Validate_reports_first_missing_field:
  "(Validate e = Status_OK \<longleftrightarrow>
      type_url e \<noteq> [] \<and> primitive_name e \<noteq> [] \<and> catalogue_name e \<noteq> [])
   \<and> (ok (Validate e) \<longleftrightarrow>
      type_url e \<noteq> [] \<and> primitive_name e \<noteq> [] \<and> catalogue_name e \<noteq> [])
   \<and> (type_url e = [] \<longrightarrow> Validate e = Status INVALID_ARGUMENT ''Missing type_url.'')
   \<and> (type_url e \<noteq> [] \<and> primitive_name e = [] \<longrightarrow>
        Validate e = Status INVALID_ARGUMENT ''Missing primitive_name.'')
   \<and> (type_url e \<noteq> [] \<and> primitive_name e \<noteq> [] \<and> catalogue_name e = [] \<longrightarrow>
        Validate e = Status INVALID_ARGUMENT ''Missing catalogue_name.'')
   \<and> distinct [Status_OK, Status INVALID_ARGUMENT ''Missing type_url.'',
                Status INVALID_ARGUMENT ''Missing primitive_name.'',
                Status INVALID_ARGUMENT ''Missing catalogue_name.'']"
  by (simp add: Validate_def Status_OK_def ok_def)

theorem Validate_reports_first_missing_field_witness:
  "Validate (sample_entry ''Aead'') = Status_OK
   \<and> Validate ((sample_entry ''Aead'')\<lparr>type_url := '''', primitive_name := '''', catalogue_name := ''''\<rparr>)
       = Status INVALID_ARGUMENT ''Missing type_url.''
   \<and> Validate ((sample_entry ''Aead'')\<lparr>primitive_name := '''', catalogue_name := ''''\<rparr>)
       = Status INVALID_ARGUMENT ''Missing primitive_name.''
   \<and> Validate ((sample_entry ''Aead'')\<lparr>catalogue_name := ''''\<rparr>)
       = Status INVALID_ARGUMENT ''Missing catalogue_name.''"
  using Validate_reports_first_missing_field [of "sample_entry ''Aead''"]
    Validate_reports_first_missing_field
      [of "(sample_entry ''Aead'')\<lparr>type_url := '''', primitive_name := '''', catalogue_name := ''''\<rparr>"]
    Validate_reports_first_missing_field
      [of "(sample_entry ''Aead'')\<lparr>primitive_name := '''', catalogue_name := ''''\<rparr>"]
    Validate_reports_first_missing_field
      [of "(sample_entry ''Aead'')\<lparr>catalogue_name := ''''\<rparr>"]
  by (simp add: sample_entry_def GetTinkKeyTypeEntry_def new_KeyTypeEntry_def)

text \<open>
  C4. If the lower-cased \<open>primitive_name\<close> of an entry is not one of the eight known
  names, \<open>Register\<close> stops at that entry with an \<open>INVALID_ARGUMENT\<close> status whose
  message quotes the name as given and as lower-cased (each as a C string, that is up
  to its first NUL byte, which is all of it for a name without NUL) and tells the
  caller to use \<open>Config::Register<P>(KeyTypeEntry&)\<close> directly. The state it returns is
  the state \<open>s1\<close> in which the entry was reached: no registry call is made for it.
\<close>

theorem Register_rejects_unknown_primitive:
  assumes unknown: "AsciiStrToLower (primitive_name e) \<notin> set spec_known_names"
    and before: "Register reg pre s = (st0, s1)" and ok0: "ok st0"
  shows "Register reg (pre @ e # post) s =
           (Status INVALID_ARGUMENT
              (''A non-standard primitive '' @ [CHR 0x27] @ c_str (primitive_name e) @ [CHR 0x27]
               @ '' '' @ [CHR 0x27] @ c_str (AsciiStrToLower (primitive_name e)) @ [CHR 0x27]
               @ '', use directly Config::Register<P>(KeyTypeEntry&).''),
            s1)
       \<and> error_code (fst (Register reg (pre @ e # post) s)) = INVALID_ARGUMENT
       \<and> snd (Register reg (e # post) s1) = s1
       \<and> (CHR 0x00 \<notin> set (primitive_name e) \<longrightarrow>
            error_message (fst (Register reg (pre @ e # post) s)) =
              ''A non-standard primitive '' @ [CHR 0x27] @ primitive_name e @ [CHR 0x27]
               @ '' '' @ [CHR 0x27] @ AsciiStrToLower (primitive_name e) @ [CHR 0x27]
               @ '', use directly Config::Register<P>(KeyTypeEntry&).'')"
proof -
  let ?n = "AsciiStrToLower (primitive_name e)"
  let ?msg = "''A non-standard primitive '' @ [CHR 0x27] @ c_str (primitive_name e) @ [CHR 0x27]
               @ '' '' @ [CHR 0x27] @ c_str ?n @ [CHR 0x27]
               @ '', use directly Config::Register<P>(KeyTypeEntry&).''"
  have none: "spec_family ?n = None" using unknown by (simp add: spec_family_None)
  have here: "Register reg (e # post) s1 = (Status INVALID_ARGUMENT ?msg, s1)"
    unfolding Register_Cons_unknown [OF none] ToStatusF_def vasprintf_nonstandard by simp
  have whole: "Register reg (pre @ e # post) s = (Status INVALID_ARGUMENT ?msg, s1)"
    using Register_append_ok [OF before ok0, of "e # post"] here by simp
  have nul: "CHR 0x00 \<notin> set (primitive_name e) \<Longrightarrow> c_str (primitive_name e) = primitive_name e
       \<and> c_str ?n = ?n"
  proof -
    assume a: "CHR 0x00 \<notin> set (primitive_name e)"
    have "CHR 0x00 \<notin> set ?n"
    proof
      assume "CHR 0x00 \<in> set ?n"
      then obtain c where c: "c \<in> set (primitive_name e)" and z: "ascii_tolower c = CHR 0x00"
        by (auto simp: AsciiStrToLower_def)
      from ascii_tolower_NUL [OF z] c a show False by simp
    qed
    with a show ?thesis by (simp add: c_str_no_NUL)
  qed
  show ?thesis using whole here nul by simp
qed

theorem Register_rejects_unknown_primitive_witness:
  "AsciiStrToLower (primitive_name (sample_entry ''CustomMac'')) \<notin> set spec_known_names
   \<and> Register counting_registry [sample_entry ''Aead''] start =
       (Status_OK, \<lparr>trace = [AeadConfig, AeadConfig], registry = 2\<rparr>)
   \<and> ok Status_OK
   \<and> CHR 0x00 \<notin> set (primitive_name (sample_entry ''CustomMac''))
   \<and> Register counting_registry
        [sample_entry ''Aead'', sample_entry ''CustomMac'', sample_entry ''Mac''] start =
       (Status INVALID_ARGUMENT
          (''A non-standard primitive '' @ [CHR 0x27] @ ''CustomMac'' @ [CHR 0x27] @ '' ''
           @ [CHR 0x27] @ ''custommac'' @ [CHR 0x27]
           @ '', use directly Config::Register<P>(KeyTypeEntry&).''),
        \<lparr>trace = [AeadConfig, AeadConfig], registry = 2\<rparr>)"
proof -
  have unknown: "AsciiStrToLower (primitive_name (sample_entry ''CustomMac'')) \<notin> set spec_known_names"
    by (simp add: primitive_name_sample_entry lower_CustomMac spec_known_names_def
          spec_family_table_def)
  have before: "Register counting_registry [sample_entry ''Aead''] start =
       (Status_OK, \<lparr>trace = [AeadConfig, AeadConfig], registry = 2\<rparr>)"
    by (simp add: run_simps)
  have ok0: "ok Status_OK" by (rule ok_Status_OK)
  have nonul: "CHR 0x00 \<notin> set (primitive_name (sample_entry ''CustomMac''))"
    by (simp add: primitive_name_sample_entry)
  have cs: "c_str ''CustomMac'' = ''CustomMac''" "c_str ''custommac'' = ''custommac''"
    by (simp_all add: c_str_def)
  from Register_rejects_unknown_primitive
         [where reg = counting_registry and s = start and post = "[sample_entry ''Mac'']",
          OF unknown before ok0]
  have "Register counting_registry
        [sample_entry ''Aead'', sample_entry ''CustomMac'', sample_entry ''Mac''] start =
       (Status INVALID_ARGUMENT
          (''A non-standard primitive '' @ [CHR 0x27] @ ''CustomMac'' @ [CHR 0x27] @ '' ''
           @ [CHR 0x27] @ ''custommac'' @ [CHR 0x27]
           @ '', use directly Config::Register<P>(KeyTypeEntry&).''),
        \<lparr>trace = [AeadConfig, AeadConfig], registry = 2\<rparr>)"
    by (simp add: primitive_name_sample_entry lower_CustomMac cs del: Register.simps)
  with unknown before ok0 nonul show ?thesis by (intro conjI)
qed

text \<open>
  C5. Entries named \<open>"HybridEncrypt"\<close> and \<open>"hybriddecrypt"\<close> resolve to the same
  family: for both, the key-manager step and the wrapper step are a call of
  \<open>HybridConfig::Register()\<close>, and \<open>Register\<close> behaves identically on the two. The
  same holds for \<open>"publickeysign"\<close> and \<open>"publickeyverify"\<close> with
  \<open>SignatureConfig::Register()\<close>.
\<close>

theorem hybrid_and_signature_aliases:
  assumes e1: "primitive_name e1 = ''HybridEncrypt''" and e2: "primitive_name e2 = ''hybriddecrypt''"
    and e3: "primitive_name e3 = ''publickeysign''" and e4: "primitive_name e4 = ''publickeyverify''"
  shows "spec_family (AsciiStrToLower (primitive_name e1)) = Some HybridConfig
       \<and> spec_family (AsciiStrToLower (primitive_name e2)) = Some HybridConfig
       \<and> Register_dispatch reg e1 (AsciiStrToLower (primitive_name e1)) s = invoke reg HybridConfig s
       \<and> Register_dispatch reg e2 (AsciiStrToLower (primitive_name e2)) s = invoke reg HybridConfig s
       \<and> RegisterWrapper reg (AsciiStrToLower (primitive_name e1)) s = invoke reg HybridConfig s
       \<and> RegisterWrapper reg (AsciiStrToLower (primitive_name e2)) s = invoke reg HybridConfig s
       \<and> Register reg [e1] s = Register reg [e2] s
       \<and> spec_family (AsciiStrToLower (primitive_name e3)) = Some SignatureConfig
       \<and> spec_family (AsciiStrToLower (primitive_name e4)) = Some SignatureConfig
       \<and> Register_dispatch reg e3 (AsciiStrToLower (primitive_name e3)) s = invoke reg SignatureConfig s
       \<and> Register_dispatch reg e4 (AsciiStrToLower (primitive_name e4)) s = invoke reg SignatureConfig s
       \<and> RegisterWrapper reg (AsciiStrToLower (primitive_name e3)) s = invoke reg SignatureConfig s
       \<and> RegisterWrapper reg (AsciiStrToLower (primitive_name e4)) s = invoke reg SignatureConfig s
       \<and> Register reg [e3] s = Register reg [e4] s"
proof -
  have f1: "spec_family (AsciiStrToLower (primitive_name e1)) = Some HybridConfig"
    by (simp add: e1 lower_HybridEncrypt spec_family_simps)
  have f2: "spec_family (AsciiStrToLower (primitive_name e2)) = Some HybridConfig"
    by (simp add: e2 lower_hybriddecrypt spec_family_simps)
  have f3: "spec_family (AsciiStrToLower (primitive_name e3)) = Some SignatureConfig"
    by (simp add: e3 lower_publickeysign spec_family_simps)
  have f4: "spec_family (AsciiStrToLower (primitive_name e4)) = Some SignatureConfig"
    by (simp add: e4 lower_publickeyverify spec_family_simps)
  have r12: "Register reg [e1] s = Register reg [e2] s"
    unfolding Register_Cons_known [OF f1] Register_Cons_known [OF f2] ..
  have r34: "Register reg [e3] s = Register reg [e4] s"
    unfolding Register_Cons_known [OF f3] Register_Cons_known [OF f4] ..
  show ?thesis
    by (intro conjI)
       (rule f1 f2 f3 f4 r12 r34
          Register_dispatch_known [OF f1] Register_dispatch_known [OF f2]
          Register_dispatch_known [OF f3] Register_dispatch_known [OF f4]
          RegisterWrapper_known [OF f1] RegisterWrapper_known [OF f2]
          RegisterWrapper_known [OF f3] RegisterWrapper_known [OF f4])+
qed

theorem hybrid_and_signature_aliases_witness:
  "primitive_name (sample_entry ''HybridEncrypt'') = ''HybridEncrypt''
   \<and> primitive_name ((sample_entry ''hybriddecrypt'')\<lparr>type_url := ''x'', catalogue_name := ''Other''\<rparr>)
       = ''hybriddecrypt''
   \<and> primitive_name (sample_entry ''publickeysign'') = ''publickeysign''
   \<and> primitive_name (sample_entry ''publickeyverify'') = ''publickeyverify''
   \<and> Register counting_registry [sample_entry ''HybridEncrypt''] start =
       (Status_OK, \<lparr>trace = [HybridConfig, HybridConfig], registry = 2\<rparr>)
   \<and> Register counting_registry
        [(sample_entry ''hybriddecrypt'')\<lparr>type_url := ''x'', catalogue_name := ''Other''\<rparr>] start =
       (Status_OK, \<lparr>trace = [HybridConfig, HybridConfig], registry = 2\<rparr>)
   \<and> Register counting_registry [sample_entry ''publickeysign''] start =
       (Status_OK, \<lparr>trace = [SignatureConfig, SignatureConfig], registry = 2\<rparr>)
   \<and> Register counting_registry [sample_entry ''publickeyverify''] start =
       (Status_OK, \<lparr>trace = [SignatureConfig, SignatureConfig], registry = 2\<rparr>)"
proof -
  let ?e2 = "(sample_entry ''hybriddecrypt'')\<lparr>type_url := ''x'', catalogue_name := ''Other''\<rparr>"
  have e1: "primitive_name (sample_entry ''HybridEncrypt'') = ''HybridEncrypt''"
    and e2: "primitive_name ?e2 = ''hybriddecrypt''"
    and e3: "primitive_name (sample_entry ''publickeysign'') = ''publickeysign''"
    and e4: "primitive_name (sample_entry ''publickeyverify'') = ''publickeyverify''"
    by (simp_all add: primitive_name_sample_entry)
  have r1: "Register counting_registry [sample_entry ''HybridEncrypt''] start =
       (Status_OK, \<lparr>trace = [HybridConfig, HybridConfig], registry = 2\<rparr>)"
    by (simp add: run_simps)
  have r3: "Register counting_registry [sample_entry ''publickeysign''] start =
       (Status_OK, \<lparr>trace = [SignatureConfig, SignatureConfig], registry = 2\<rparr>)"
    by (simp add: run_simps)
  note all = hybrid_and_signature_aliases
         [where reg = counting_registry and s = start, OF e1 e2 e3 e4]
  have eq12: "Register counting_registry [sample_entry ''HybridEncrypt''] start =
              Register counting_registry [?e2] start"
    using all by (simp del: Register.simps)
  have eq34: "Register counting_registry [sample_entry ''publickeysign''] start =
              Register counting_registry [sample_entry ''publickeyverify''] start"
    using all by (simp del: Register.simps)
  have r2: "Register counting_registry [?e2] start =
       (Status_OK, \<lparr>trace = [HybridConfig, HybridConfig], registry = 2\<rparr>)"
    using eq12 r1 by (simp del: Register.simps)
  have r4: "Register counting_registry [sample_entry ''publickeyverify''] start =
       (Status_OK, \<lparr>trace = [SignatureConfig, SignatureConfig], registry = 2\<rparr>)"
    using eq34 r3 by (simp del: Register.simps)
  show ?thesis by (intro conjI) (rule e1 e2 e3 e4 r1 r2 r3 r4)+
qed

text \<open>
  C6. For all arguments \<open>GetTinkKeyTypeEntry\<close> returns the descriptor whose
  \<open>type_url\<close> is the prefix \<open>type.googleapis.com/google.crypto.tink.\<close> followed by
  the key proto name and whose other four fields are the arguments given. For the
  arguments \<open>"SomeCatalogue"\<close>, \<open>"Aead"\<close>, \<open>"AesGcmKey"\<close>, \<open>0\<close>, \<open>true\<close> the
  \<open>type_url\<close> is \<open>type.googleapis.com/google.crypto.tink.AesGcmKey\<close> and the
  descriptor passes \<open>Validate\<close>.
\<close>

theorem GetTinkKeyTypeEntry_fields:
  "GetTinkKeyTypeEntry catalogue primitive key_proto_name version allowed =
     \<lparr>primitive_name = primitive,
      type_url = ''type.googleapis.com/google.crypto.tink.'' @ key_proto_name,
      key_manager_version = version, new_key_allowed = allowed,
      catalogue_name = catalogue\<rparr>
   \<and> type_url (GetTinkKeyTypeEntry ''SomeCatalogue'' ''Aead'' ''AesGcmKey'' 0 True) =
       ''type.googleapis.com/google.crypto.tink.AesGcmKey''
   \<and> Validate (GetTinkKeyTypeEntry ''SomeCatalogue'' ''Aead'' ''AesGcmKey'' 0 True) = Status_OK"
  by (simp add: GetTinkKeyTypeEntry_def new_KeyTypeEntry_def Validate_def)

theorem GetTinkKeyTypeEntry_fields_witness:
  "GetTinkKeyTypeEntry ''Legacy'' ''Mac'' ''HmacKey'' (-1) False =
     \<lparr>primitive_name = ''Mac'', type_url = ''type.googleapis.com/google.crypto.tink.HmacKey'',
      key_manager_version = 4294967295, new_key_allowed = False, catalogue_name = ''Legacy''\<rparr>"
  using GetTinkKeyTypeEntry_fields [of "''Legacy''" "''Mac''" "''HmacKey''" "-1" False]
  by simp

text \<open>
  C7. \<open>RegisterWrapper("aead")\<close>, in any state of the process (in particular the
  initial one, before any \<open>Register\<close> call), is exactly one call of
  \<open>AeadConfig::Register()\<close>: it returns that call's status and registry, so it
  succeeds whenever the delegate does. Its only argument is the string.
\<close>

theorem RegisterWrapper_aead_direct:
  "RegisterWrapper reg ''aead'' s = invoke reg AeadConfig s
   \<and> trace (snd (RegisterWrapper reg ''aead'' s)) = trace s @ [AeadConfig]
   \<and> fst (RegisterWrapper reg ''aead'' s) = fst (reg AeadConfig (registry s))
   \<and> registry (snd (RegisterWrapper reg ''aead'' s)) = snd (reg AeadConfig (registry s))
   \<and> (ok (fst (reg AeadConfig (registry s))) \<longrightarrow> ok (fst (RegisterWrapper reg ''aead'' s)))"
  by (simp add: RegisterWrapper_def invoke_def split: prod.splits)

theorem RegisterWrapper_aead_direct_witness:
  "ok (fst (counting_registry AeadConfig (registry start)))
   \<and> RegisterWrapper counting_registry ''aead'' start =
       (Status_OK, \<lparr>trace = [AeadConfig], registry = 1\<rparr>)"
  using RegisterWrapper_aead_direct [of counting_registry start]
  by (simp add: invoke_def counting_registry_def start_def ok_def Status_OK_def)



text \<open>
  C9. On every known lower-case name the comparison chain inside \<open>Register\<close> and the
  one inside \<open>RegisterWrapper\<close> give the same result: both are a call of the one
  registration action of the name's family. Hence a run of \<open>Register\<close> that succeeds
  has called, for each entry in order, the action of the entry's family twice, and
  nothing else.
\<close>

theorem dispatch_tables_agree:
  "(n \<in> set spec_known_names \<longrightarrow> Register_dispatch reg e n s = RegisterWrapper reg n s)
   \<and> (spec_family n = Some d \<longrightarrow>
        Register_dispatch reg e n s = invoke reg d s \<and> RegisterWrapper reg n s = invoke reg d s)
   \<and> (spec_family (AsciiStrToLower (primitive_name e)) = Some d \<longrightarrow> spec_calls e = [d, d])
   \<and> (Register reg cfg s = (st, s') \<and> ok st \<longrightarrow>
        trace s' = trace s @ concat (map spec_calls cfg)
        \<and> list_all (\<lambda>e. AsciiStrToLower (primitive_name e) \<in> set spec_known_names) cfg
        \<and> length (trace s') = length (trace s) + 2 * length cfg)"
proof -
  have a: "spec_family n = Some d \<Longrightarrow>
        Register_dispatch reg e n s = invoke reg d s \<and> RegisterWrapper reg n s = invoke reg d s" for d
    by (simp add: Register_dispatch_known RegisterWrapper_known)
  have b: "n \<in> set spec_known_names \<Longrightarrow> Register_dispatch reg e n s = RegisterWrapper reg n s"
  proof -
    assume "n \<in> set spec_known_names"
    then obtain d' where "spec_family n = Some d'"
      using spec_family_None [of n] by (cases "spec_family n") auto
    from a [OF this] show ?thesis by simp
  qed
  have c: "spec_family (AsciiStrToLower (primitive_name e)) = Some d \<Longrightarrow> spec_calls e = [d, d]"
    by (simp add: spec_calls_def)
  have d: "Register reg cfg s = (st, s') \<Longrightarrow> ok st \<Longrightarrow>
        trace s' = trace s @ concat (map spec_calls cfg)
        \<and> list_all (\<lambda>e. AsciiStrToLower (primitive_name e) \<in> set spec_known_names) cfg
        \<and> length (trace s') = length (trace s) + 2 * length cfg"
    using Register_ok_trace [of reg cfg s st s'] Register_ok_known [of reg cfg s st s']
      length_spec_calls [of cfg] by simp
  show ?thesis using a [of d] b c d by blast
qed

theorem dispatch_tables_agree_witness:
  "''hybriddecrypt'' \<in> set spec_known_names
   \<and> spec_family ''hybriddecrypt'' = Some HybridConfig
   \<and> spec_family (AsciiStrToLower (primitive_name (sample_entry ''hybriddecrypt''))) = Some HybridConfig
   \<and> Register counting_registry [sample_entry ''hybriddecrypt'', sample_entry ''Mac''] start
       = (Status_OK, \<lparr>trace = [HybridConfig, HybridConfig, MacConfig, MacConfig], registry = 4\<rparr>)
   \<and> ok Status_OK
   \<and> Register_dispatch counting_registry (sample_entry ''hybriddecrypt'') ''hybriddecrypt'' start
       = RegisterWrapper counting_registry ''hybriddecrypt'' start
   \<and> RegisterWrapper counting_registry ''hybriddecrypt'' start
       = (Status_OK, \<lparr>trace = [HybridConfig], registry = 1\<rparr>)
   \<and> spec_calls (sample_entry ''hybriddecrypt'') = [HybridConfig, HybridConfig]
   \<and> length [HybridConfig, HybridConfig, MacConfig, MacConfig] =
       length (trace start) + 2 * length [sample_entry ''hybriddecrypt'', sample_entry ''Mac'']"
proof -
  have h1: "''hybriddecrypt'' \<in> set spec_known_names"
    by (simp add: spec_known_names_def spec_family_table_def)
  have h2: "spec_family ''hybriddecrypt'' = Some HybridConfig" by (simp add: spec_family_simps)
  have h3: "spec_family (AsciiStrToLower (primitive_name (sample_entry ''hybriddecrypt''))) = Some HybridConfig"
    by (simp add: primitive_name_sample_entry lower_hybriddecrypt spec_family_simps)
  have h4: "Register counting_registry [sample_entry ''hybriddecrypt'', sample_entry ''Mac''] start
       = (Status_OK, \<lparr>trace = [HybridConfig, HybridConfig, MacConfig, MacConfig], registry = 4\<rparr>)"
    by (simp add: run_simps)
  have h5: "ok Status_OK" by (rule ok_Status_OK)
  have i: "invoke counting_registry HybridConfig start =
      (Status_OK, \<lparr>trace = [HybridConfig], registry = 1\<rparr>)"
    by (simp add: run_simps)
  note all = dispatch_tables_agree
    [where reg = counting_registry and s = start and e = "sample_entry ''hybriddecrypt''"
       and d = HybridConfig and n = "''hybriddecrypt''"
       and cfg = "[sample_entry ''hybriddecrypt'', sample_entry ''Mac'']" and st = Status_OK
       and s' = "\<lparr>trace = [HybridConfig, HybridConfig, MacConfig, MacConfig], registry = 4\<rparr>"]
  have c1: "Register_dispatch counting_registry (sample_entry ''hybriddecrypt'') ''hybriddecrypt'' start
       = RegisterWrapper counting_registry ''hybriddecrypt'' start"
    using all h1 by blast
  have c2: "RegisterWrapper counting_registry ''hybriddecrypt'' start
       = (Status_OK, \<lparr>trace = [HybridConfig], registry = 1\<rparr>)"
    using all h2 i by simp
  have c3: "spec_calls (sample_entry ''hybriddecrypt'') = [HybridConfig, HybridConfig]"
    using all h3 by blast
  have c4: "length [HybridConfig, HybridConfig, MacConfig, MacConfig] =
       length (trace start) + 2 * length [sample_entry ''hybriddecrypt'', sample_entry ''Mac'']"
    by (simp add: start_def)
  show ?thesis by (intro conjI) (rule h1 h2 h3 h4 h5 c1 c2 c3 c4)+
qed

text \<open>
  C10. Two configurations whose entries carry the same \<open>primitive_name\<close>s, in the same
  order, give the same result, the same sequence of registry calls and the same
  registry. In particular, changing \<open>type_url\<close>, \<open>catalogue_name\<close>,
  \<open>key_manager_version\<close> and \<open>new_key_allowed\<close> of every entry in any way changes
  nothing: \<open>Register\<close> does not read them.
\<close>

theorem Register_reads_only_primitive_names:
  "(map primitive_name c1 = map primitive_name c2 \<longrightarrow> Register reg c1 s = Register reg c2 s)
   \<and> Register reg
        (map (\<lambda>e. e\<lparr>type_url := u e, catalogue_name := c e, key_manager_version := v e,
                     new_key_allowed := a e\<rparr>) cfg) s
       = Register reg cfg s"
proof -
  have "map primitive_name
          (map (\<lambda>e. e\<lparr>type_url := u e, catalogue_name := c e, key_manager_version := v e,
                     new_key_allowed := a e\<rparr>) cfg) = map primitive_name cfg"
    by simp
  from Register_names [OF this] Register_names [of c1 c2 reg s] show ?thesis by blast
qed

theorem Register_reads_only_primitive_names_witness:
  "map primitive_name [sample_entry ''Aead'', sample_entry ''CustomMac''] =
     map primitive_name
       [\<lparr>primitive_name = ''Aead'', type_url = [], key_manager_version = 7,
         new_key_allowed = False, catalogue_name = []\<rparr>,
        \<lparr>primitive_name = ''CustomMac'', type_url = ''u'', key_manager_version = 1,
         new_key_allowed = True, catalogue_name = ''c''\<rparr>]
   \<and> Register no_hybrid_registry [sample_entry ''Aead'', sample_entry ''CustomMac''] start =
     Register no_hybrid_registry
       [\<lparr>primitive_name = ''Aead'', type_url = [], key_manager_version = 7,
         new_key_allowed = False, catalogue_name = []\<rparr>,
        \<lparr>primitive_name = ''CustomMac'', type_url = ''u'', key_manager_version = 1,
         new_key_allowed = True, catalogue_name = ''c''\<rparr>] start"
proof -
  let ?c1 = "[sample_entry ''Aead'', sample_entry ''CustomMac'']"
  let ?c2 = "[\<lparr>primitive_name = ''Aead'', type_url = [], key_manager_version = 7,
         new_key_allowed = False, catalogue_name = []\<rparr>,
        \<lparr>primitive_name = ''CustomMac'', type_url = ''u'', key_manager_version = 1,
         new_key_allowed = True, catalogue_name = ''c''\<rparr>]"
  have h: "map primitive_name ?c1 = map primitive_name ?c2"
    by (simp add: primitive_name_sample_entry)
  from Register_reads_only_primitive_names
    [where ?c1.0 = ?c1 and ?c2.0 = ?c2 and reg = no_hybrid_registry and s = start] h
  have "Register no_hybrid_registry ?c1 start = Register no_hybrid_registry ?c2 start"
    by blast
  with h show ?thesis by (intro conjI)
qed

end
